theory Spec2Isabelle
  imports Main "HOL-Library.Sublist"
begin

section \<open>Strings as Python sees them (ASCII fragment)\<close>

text \<open>
  A Python \<open>str\<close> is modelled as a \<open>string\<close> (a list of characters). The model covers
  ASCII text: the whitespace class is the ASCII part of what \<open>str.isspace\<close>, \<open>str.strip\<close>
  and the regular expression class \<open>\s\<close> accept (TAB, LF, VT, FF, CR, FS, GS, RS, US and the
  space), and case conversion maps the 26 ASCII letters only.
\<close>

definition whitespace_chars :: "char list" where
  "whitespace_chars =
     [CHR 0x09, CHR 0x0A, CHR 0x0B, CHR 0x0C, CHR 0x0D,
      CHR 0x1C, CHR 0x1D, CHR 0x1E, CHR 0x1F, CHR '' '']"

definition is_space :: "char \<Rightarrow> bool" where
  "is_space c = (c \<in> set whitespace_chars)"

definition lower_letters :: "char list" where
  "lower_letters = ''abcdefghijklmnopqrstuvwxyz''"

definition upper_letters :: "char list" where
  "upper_letters = ''ABCDEFGHIJKLMNOPQRSTUVWXYZ''"

definition char_lower :: "char \<Rightarrow> char" where
  "char_lower c = (case map_of (zip upper_letters lower_letters) c of Some l \<Rightarrow> l | None \<Rightarrow> c)"

definition char_upper :: "char \<Rightarrow> char" where
  "char_upper c = (case map_of (zip lower_letters upper_letters) c of Some u \<Rightarrow> u | None \<Rightarrow> c)"

text \<open>\<open>str.lower()\<close> and \<open>str.upper()\<close>.\<close>

definition lower :: "string \<Rightarrow> string" where
  "lower s = map char_lower s"

definition upper :: "string \<Rightarrow> string" where
  "upper s = map char_upper s"

text \<open>\<open>str.strip()\<close>: whitespace removed at both ends.\<close>

definition strip :: "string \<Rightarrow> string" where
  "strip s = rev (dropWhile is_space (rev (dropWhile is_space s)))"

text \<open>\<open>sub in s\<close> for strings: \<open>sub\<close> occurs in \<open>s\<close> as a contiguous piece.\<close>

fun starts_with :: "string \<Rightarrow> string \<Rightarrow> bool" where
  "starts_with [] s = True"
| "starts_with (p # ps) [] = False"
| "starts_with (p # ps) (c # cs) = (p = c \<and> starts_with ps cs)"

fun str_in :: "string \<Rightarrow> string \<Rightarrow> bool" where
  "str_in sub [] = (sub = [])"
| "str_in sub (c # cs) = (starts_with sub (c # cs) \<or> str_in sub cs)"

text \<open>\<open>sep.join(parts)\<close>.\<close>

fun join :: "string \<Rightarrow> string list \<Rightarrow> string" where
  "join sep [] = []"
| "join sep [p] = p"
| "join sep (p # q # ps) = p @ sep @ join sep (q # ps)"

section \<open>The regular expressions of the converter\<close>

text \<open>
  The converter drives its parsing with Python's \<open>re\<close> module. The patterns it uses are
  built from single-character classes, concatenation, alternation, greedy and lazy
  repetition of a character class, optional parts, capture groups, the anchors \<open>^\<close> and
  \<open>$\<close> and one lookahead. The flags are compiled into the pattern: under \<open>IGNORECASE\<close> a
  literal is \<open>LitI\<close>, under \<open>DOTALL\<close> the dot is \<open>AnyChar\<close>, under \<open>MULTILINE\<close> the anchors
  are \<open>BolM\<close> and \<open>EolM\<close>.
\<close>

datatype cclass =
    Lit char            \<comment> \<open>a literal character\<close>
  | LitI char           \<comment> \<open>a literal character under \<open>IGNORECASE\<close>\<close>
  | Dot                 \<comment> \<open>\<open>.\<close>: anything but a newline\<close>
  | AnyChar             \<comment> \<open>\<open>.\<close> under \<open>DOTALL\<close>\<close>
  | Space               \<comment> \<open>\<open>\s\<close>\<close>
  | OneOf "char list"   \<comment> \<open>\<open>[...]\<close>\<close>
  | NoneOf "char list"  \<comment> \<open>\<open>[^...]\<close>\<close>

fun cmatch :: "cclass \<Rightarrow> char \<Rightarrow> bool" where
  "cmatch (Lit a) c = (c = a)"
| "cmatch (LitI a) c = (char_lower c = char_lower a)"
| "cmatch Dot c = (c \<noteq> CHR 0x0A)"
| "cmatch AnyChar c = True"
| "cmatch Space c = is_space c"
| "cmatch (OneOf cs) c = (c \<in> set cs)"
| "cmatch (NoneOf cs) c = (c \<notin> set cs)"

datatype regex =
    Atom cclass
  | Eps
  | Seq regex regex
  | Alt regex regex             \<comment> \<open>\<open>a|b\<close>: the left branch is tried first\<close>
  | Star cclass                 \<comment> \<open>\<open>c*\<close>, greedy\<close>
  | StarLazy cclass             \<comment> \<open>\<open>c*?\<close>\<close>
  | Group nat regex             \<comment> \<open>capture group number \<open>n\<close>\<close>
  | GroupEnd nat string         \<comment> \<open>internal: closes group \<open>n\<close> opened at the given input\<close>
  | Bol                         \<comment> \<open>\<open>^\<close>\<close>
  | BolM                        \<comment> \<open>\<open>^\<close> under \<open>MULTILINE\<close>\<close>
  | Eol                         \<comment> \<open>\<open>$\<close>\<close>
  | EolM                        \<comment> \<open>\<open>$\<close> under \<open>MULTILINE\<close>\<close>
  | Lookahead regex             \<comment> \<open>\<open>(?=r)\<close>\<close>

text \<open>Derived forms: \<open>c+\<close>, \<open>r?\<close>, a concatenation, a literal word.\<close>

definition Plus :: "cclass \<Rightarrow> regex" where
  "Plus c = Seq (Atom c) (Star c)"

definition Opt :: "regex \<Rightarrow> regex" where
  "Opt r = Alt r Eps"

fun Cat :: "regex list \<Rightarrow> regex" where
  "Cat [] = Eps"
| "Cat [r] = r"
| "Cat (r # rs) = Seq r (Cat rs)"

definition Word :: "string \<Rightarrow> regex" where
  "Word w = Cat (map (\<lambda>c. Atom (Lit c)) w)"

definition WordI :: "string \<Rightarrow> regex" where
  "WordI w = Cat (map (\<lambda>c. Atom (LitI c)) w)"

fun Alts :: "regex list \<Rightarrow> regex" where
  "Alts [] = Eps"
| "Alts [r] = r"
| "Alts (r # rs) = Alt r (Alts rs)"

text \<open>
  A capture is kept as the input at the group's start and the input at its end; the
  captured text is the difference. \<open>group\<close> is \<open>m.group(n)\<close>: \<open>None\<close> for a group that
  took no part in the match.
\<close>

type_synonym captures = "(nat \<times> string \<times> string) list"

definition group :: "captures \<Rightarrow> nat \<Rightarrow> string option" where
  "group caps n =
     (case map_of caps n of
        None \<Rightarrow> None
      | Some (a, b) \<Rightarrow> Some (take (length a - length b) a))"

fun rsize :: "regex \<Rightarrow> nat" where
  "rsize (Seq a b) = Suc (rsize a + rsize b)"
| "rsize (Alt a b) = Suc (rsize a + rsize b)"
| "rsize (Group n r) = Suc (Suc (rsize r))"
| "rsize (Lookahead r) = Suc (rsize r)"
| "rsize r = 1"

text \<open>
  The backtracking matcher. \<open>run k b s caps\<close> matches the patterns \<open>k\<close> one after another
  against the input \<open>s\<close>; \<open>b\<close> is the text before \<open>s\<close>, reversed (the anchors look at it),
  \<open>caps\<close> the captures so far. The first success in Python's backtracking order is
  returned: the left branch of an alternative before the right one, the longest
  repetition first for a greedy star, the shortest first for a lazy one.
\<close>

function run :: "regex list \<Rightarrow> string \<Rightarrow> string \<Rightarrow> captures
    \<Rightarrow> (string \<times> string \<times> captures) option" where
  "run [] b s caps = Some (b, s, caps)"
| "run (Atom c # k) b s caps =
     (case s of [] \<Rightarrow> None
      | x # xs \<Rightarrow> if cmatch c x then run k (x # b) xs caps else None)"
| "run (Eps # k) b s caps = run k b s caps"
| "run (Seq r1 r2 # k) b s caps = run (r1 # r2 # k) b s caps"
| "run (Alt r1 r2 # k) b s caps =
     (case run (r1 # k) b s caps of
        Some res \<Rightarrow> Some res
      | None \<Rightarrow> run (r2 # k) b s caps)"
| "run (Star c # k) b s caps =
     (case s of [] \<Rightarrow> run k b s caps
      | x # xs \<Rightarrow>
          if cmatch c x then
            (case run (Star c # k) (x # b) xs caps of
               Some res \<Rightarrow> Some res
             | None \<Rightarrow> run k b s caps)
          else run k b s caps)"
| "run (StarLazy c # k) b s caps =
     (case run k b s caps of
        Some res \<Rightarrow> Some res
      | None \<Rightarrow>
          (case s of [] \<Rightarrow> None
           | x # xs \<Rightarrow> if cmatch c x then run (StarLazy c # k) (x # b) xs caps else None))"
| "run (Group n r # k) b s caps = run (r # GroupEnd n s # k) b s caps"
| "run (GroupEnd n s0 # k) b s caps = run k b s ((n, s0, s) # caps)"
| "run (Bol # k) b s caps = (if b = [] then run k b s caps else None)"
| "run (BolM # k) b s caps =
     (if b = [] \<or> hd b = CHR 0x0A then run k b s caps else None)"
| "run (Eol # k) b s caps =
     (if s = [] \<or> s = [CHR 0x0A] then run k b s caps else None)"
| "run (EolM # k) b s caps =
     (if s = [] \<or> hd s = CHR 0x0A then run k b s caps else None)"
| "run (Lookahead r # k) b s caps =
     (case run [r] b s caps of
        Some res \<Rightarrow> run k b s caps
      | None \<Rightarrow> None)"
  by pat_completeness auto
termination
  by (relation "measures [\<lambda>(k, b, s, caps). sum_list (map rsize k),
                          \<lambda>(k, b, s, caps). length s]") auto

text \<open>
  \<open>re.match(pattern, s)\<close>: the pattern is tried at the start of \<open>s\<close> only; the result is
  the captures of the match.
\<close>

definition re_match :: "regex \<Rightarrow> string \<Rightarrow> captures option" where
  "re_match r s = (case run [r] [] s [] of None \<Rightarrow> None | Some (b, s', caps) \<Rightarrow> Some caps)"

text \<open>
  \<open>re.sub(pattern, '', s)\<close>: every match, found left to right, is deleted. A position
  where the pattern does not match, or matches the empty text only, keeps its character
  (each pattern of the converter needs at least one literal character to match).
\<close>

function re_sub_empty :: "regex \<Rightarrow> string \<Rightarrow> string \<Rightarrow> string" where
  "re_sub_empty r b s =
     (case run [r] b s [] of
        Some (b', s', caps) \<Rightarrow>
          if length s' < length s then re_sub_empty r b' s'
          else (case s of [] \<Rightarrow> [] | x # xs \<Rightarrow> x # re_sub_empty r (x # b) xs)
      | None \<Rightarrow> (case s of [] \<Rightarrow> [] | x # xs \<Rightarrow> x # re_sub_empty r (x # b) xs))"
  by pat_completeness auto
termination
  by (relation "measure (\<lambda>(r, b, s). length s)") auto

text \<open>
  \<open>re.split(pattern, s)\<close> for a pattern without groups: the pieces between the matches;
  \<open>cur\<close> is the piece being collected, reversed.
\<close>

function re_split :: "regex \<Rightarrow> string \<Rightarrow> string \<Rightarrow> string \<Rightarrow> string list" where
  "re_split r b s cur =
     (case run [r] b s [] of
        Some (b', s', caps) \<Rightarrow>
          if length s' < length s then rev cur # re_split r b' s' []
          else (case s of [] \<Rightarrow> [rev cur] | x # xs \<Rightarrow> re_split r (x # b) xs (x # cur))
      | None \<Rightarrow> (case s of [] \<Rightarrow> [rev cur] | x # xs \<Rightarrow> re_split r (x # b) xs (x # cur)))"
  by pat_completeness auto
termination
  by (relation "measure (\<lambda>(r, b, s, cur). length s)") auto

section \<open>The converter: data\<close>

text \<open>
  The dictionaries built by \<open>_parse_columns\<close> and \<open>_parse_single_table\<close>, as records. The
  fields are the dictionary keys \<open>name\<close>, \<open>type\<close>, \<open>params\<close>, \<open>nullable\<close> and \<open>schema\<close>,
  \<open>name\<close>, \<open>columns\<close>.
\<close>

record column_def =
  col_name :: string
  col_type :: string
  col_params :: "string option"
  nullable :: bool

record table_def =
  schema :: "string option"
  name :: string
  columns :: "column_def list"

text \<open>\<open>self.type_mapping\<close>, in the order of the source.\<close>

definition type_mapping :: "(string \<times> string) list" where
  "type_mapping =
     [(''int'', ''INT''),
      (''bigint'', ''BIGINT''),
      (''smallint'', ''SMALLINT''),
      (''tinyint'', ''TINYINT''),
      (''bit'', ''BOOLEAN''),
      (''decimal'', ''DECIMAL''),
      (''numeric'', ''DECIMAL''),
      (''float'', ''DOUBLE''),
      (''real'', ''FLOAT''),
      (''money'', ''DECIMAL(19,4)''),
      (''smallmoney'', ''DECIMAL(10,4)''),
      (''char'', ''STRING''),
      (''varchar'', ''STRING''),
      (''text'', ''STRING''),
      (''nchar'', ''STRING''),
      (''nvarchar'', ''STRING''),
      (''ntext'', ''STRING''),
      (''date'', ''DATE''),
      (''datetime'', ''TIMESTAMP''),
      (''datetime2'', ''TIMESTAMP''),
      (''datetimeoffset'', ''TIMESTAMP''),
      (''smalldatetime'', ''TIMESTAMP''),
      (''time'', ''STRING''),
      (''timestamp'', ''BINARY''),
      (''binary'', ''BINARY''),
      (''varbinary'', ''BINARY''),
      (''image'', ''BINARY''),
      (''uniqueidentifier'', ''STRING''),
      (''xml'', ''STRING''),
      (''sql_variant'', ''STRING''),
      (''geography'', ''STRING''),
      (''geometry'', ''STRING''),
      (''hierarchyid'', ''STRING'')]"

section \<open>\<open>_smart_split\<close>\<close>

text \<open>
  The loop of \<open>_smart_split\<close> over the characters of \<open>text\<close>, with its three variables:
  \<open>parts\<close>, \<open>current\<close> and \<open>paren_depth\<close>. It returns \<open>parts\<close> and \<open>current\<close> as they are
  when the loop ends. The depth is a Python \<open>int\<close>: a closing parenthesis with none open
  makes it negative.
\<close>

fun smart_split_loop :: "string \<Rightarrow> string list \<Rightarrow> string \<Rightarrow> int \<Rightarrow> string list \<times> string" where
  "smart_split_loop [] parts current paren_depth = (parts, current)"
| "smart_split_loop (c # cs) parts current paren_depth =
     (if c = CHR ''('' then smart_split_loop cs parts (current @ [c]) (paren_depth + 1)
      else if c = CHR '')'' then smart_split_loop cs parts (current @ [c]) (paren_depth - 1)
      else if c = CHR '','' \<and> paren_depth = 0 then
        smart_split_loop cs (parts @ [strip current]) [] paren_depth
      else smart_split_loop cs parts (current @ [c]) paren_depth)"

definition smart_split :: "string \<Rightarrow> string list" where
  "smart_split text =
     (case smart_split_loop text [] [] 0 of
        (parts, current) \<Rightarrow> if current \<noteq> [] then parts @ [strip current] else parts)"

section \<open>\<open>convert_data_type\<close>\<close>

text \<open>
  \<open>int(params)\<close> on ASCII text. Whitespace around the number is ignored; for \<open>int\<close> that
  is TAB, LF, VT, FF, CR and the space only (the separators \<open>0x1C\<close> to \<open>0x1F\<close>, which
  \<open>str.strip\<close> removes, are rejected). A sign may come first, then decimal digits, where
  one underscore may stand between two digits. A text of more than 4300 digits is
  rejected (the default limit of CPython on the length of integer strings; leading zeros
  count, underscores do not). \<open>None\<close> is the \<open>ValueError\<close> that the bare \<open>except\<close> of the
  source catches.
\<close>

definition int_whitespace_chars :: "char list" where
  "int_whitespace_chars = [CHR 0x09, CHR 0x0A, CHR 0x0B, CHR 0x0C, CHR 0x0D, CHR '' '']"

definition int_strip :: "string \<Rightarrow> string" where
  "int_strip s =
     rev (dropWhile (\<lambda>c. c \<in> set int_whitespace_chars)
       (rev (dropWhile (\<lambda>c. c \<in> set int_whitespace_chars) s)))"

definition max_str_digits :: nat where
  "max_str_digits = 4300"

definition digit_val :: "char \<Rightarrow> int option" where
  "digit_val c = map_of (zip ''0123456789'' [0, 1, 2, 3, 4, 5, 6, 7, 8, 9]) c"

fun int_digits :: "string \<Rightarrow> int \<Rightarrow> int option" where
  "int_digits [] acc = Some acc"
| "int_digits (c # cs) acc =
     (if c = CHR ''_'' then
        (case cs of [] \<Rightarrow> None
         | d # ds \<Rightarrow>
             (case digit_val d of None \<Rightarrow> None | Some v \<Rightarrow> int_digits ds (acc * 10 + v)))
      else (case digit_val c of None \<Rightarrow> None | Some v \<Rightarrow> int_digits cs (acc * 10 + v)))"

definition int_unsigned :: "string \<Rightarrow> int option" where
  "int_unsigned s =
     (if max_str_digits < length (filter (\<lambda>c. c \<noteq> CHR ''_'') s) then None
      else
        (case s of [] \<Rightarrow> None
         | c # cs \<Rightarrow> (case digit_val c of None \<Rightarrow> None | Some v \<Rightarrow> int_digits cs v)))"

definition py_int :: "string \<Rightarrow> int option" where
  "py_int s =
     (case int_strip s of [] \<Rightarrow> None
      | c # cs \<Rightarrow>
          if c = CHR ''-'' then map_option uminus (int_unsigned cs)
          else if c = CHR ''+'' then int_unsigned cs
          else int_unsigned (c # cs))"

text \<open>
  \<open>params\<close> is \<open>Optional[str]\<close>; the test \<open>and params\<close> is Python truthiness, false for
  \<open>None\<close> and for the empty string.
\<close>

definition truthy :: "string option \<Rightarrow> bool" where
  "truthy p = (case p of None \<Rightarrow> False | Some s \<Rightarrow> s \<noteq> [])"

definition convert_data_type :: "string \<Rightarrow> string option \<Rightarrow> string" where
  "convert_data_type sql_server_type params =
     (let base_type = lower sql_server_type in
      if base_type \<in> set [''decimal'', ''numeric''] \<and> truthy params then
        ''DECIMAL('' @ the params @ '')''
      else if base_type \<in> set [''char'', ''varchar'', ''nchar'', ''nvarchar''] then ''STRING''
      else if base_type \<in> set [''float''] \<and> truthy params then
        (case py_int (the params) of
           Some n \<Rightarrow> if n < 25 then ''FLOAT'' else ''DOUBLE''
         | None \<Rightarrow> ''DOUBLE'')
      else (case map_of type_mapping base_type of Some t \<Rightarrow> t | None \<Rightarrow> ''STRING''))"

section \<open>\<open>_parse_columns\<close>\<close>

text \<open>
  The pattern of line 151, under \<open>IGNORECASE\<close>:
  \<^verbatim>\<open>^\s*(CONSTRAINT|PRIMARY|UNIQUE|FOREIGN|CHECK|PAD_INDEX|STATISTICS_NORECOMPUTE|IGNORE_DUP_KEY|ALLOW_ROW_LOCKS|ALLOW_PAGE_LOCKS)\<close>
\<close>

definition constraint_keywords :: "string list" where
  "constraint_keywords =
     [''CONSTRAINT'', ''PRIMARY'', ''UNIQUE'', ''FOREIGN'', ''CHECK'', ''PAD_INDEX'',
      ''STATISTICS_NORECOMPUTE'', ''IGNORE_DUP_KEY'', ''ALLOW_ROW_LOCKS'', ''ALLOW_PAGE_LOCKS'']"

definition skip_pattern :: regex where
  "skip_pattern = Cat [Bol, Star Space, Group 1 (Alts (map WordI constraint_keywords))]"

text \<open>The option names of line 155.\<close>

definition constraint_options :: "string list" where
  "constraint_options =
     [''PAD_INDEX'', ''STATISTICS_NORECOMPUTE'', ''IGNORE_DUP_KEY'', ''ALLOW_ROW_LOCKS'',
      ''ALLOW_PAGE_LOCKS'']"

text \<open>
  The pattern of line 160:
  \<^verbatim>\<open>\[?([^\[\]]+)\]?\s+\[?([a-zA-Z_]+)(?:\(([^)]+)\))?\]?\s*(.*)\<close>
\<close>

definition column_pattern :: regex where
  "column_pattern =
     Cat [Opt (Atom (Lit CHR ''['')), Group 1 (Plus (NoneOf ''[]'')), Opt (Atom (Lit CHR '']'')),
          Plus Space,
          Opt (Atom (Lit CHR ''['')), Group 2 (Plus (OneOf (lower_letters @ upper_letters @ ''_''))),
          Opt (Cat [Atom (Lit CHR ''(''), Group 3 (Plus (NoneOf '')'')), Atom (Lit CHR '')'')]),
          Opt (Atom (Lit CHR '']'')),
          Star Space, Group 4 (Star Dot)]"

text \<open>
  The body of the loop of \<open>_parse_columns\<close> for one fragment: \<open>None\<close> where the source says
  \<open>continue\<close> or the column pattern does not match, the appended dictionary otherwise.
\<close>

text \<open>\<open>col_modifiers\<close>: \<open>column_match.group(4) if column_match.group(4) else ''\<close>.\<close>

definition col_modifiers :: "captures \<Rightarrow> string" where
  "col_modifiers column_match =
     (case group column_match 4 of None \<Rightarrow> [] | Some g \<Rightarrow> if g \<noteq> [] then g else [])"

definition parse_column_line :: "string \<Rightarrow> column_def option" where
  "parse_column_line line0 =
     (let line = strip line0 in
      if line = [] then None
      else if re_match skip_pattern line \<noteq> None then None
      else if CHR ''='' \<in> set line \<and> (\<exists>opt \<in> set constraint_options. str_in opt (upper line))
        then None
      else
        (case re_match column_pattern line of
           None \<Rightarrow> None
         | Some column_match \<Rightarrow>
             Some \<lparr>col_name = the (group column_match 1),
                   col_type = lower (the (group column_match 2)),
                   col_params = group column_match 3,
                   nullable = (\<not> str_in ''NOT NULL'' (upper (col_modifiers column_match)))\<rparr>))"

definition parse_columns :: "string \<Rightarrow> column_def list" where
  "parse_columns columns_raw = List.map_filter parse_column_line (smart_split columns_raw)"

section \<open>\<open>_parse_single_table\<close>\<close>

text \<open>
  The two table name patterns of lines 89 and 92:
  \<^verbatim>\<open>\[?([^\[\]]+)\]?\.\[?([^\[\]]+)\]?\s*\(\<close> and \<^verbatim>\<open>\[?([^\[\]]+)\]?\s*\(\<close>
\<close>

definition qualified_name_pattern :: regex where
  "qualified_name_pattern =
     Cat [Opt (Atom (Lit CHR ''['')), Group 1 (Plus (NoneOf ''[]'')), Opt (Atom (Lit CHR '']'')),
          Atom (Lit CHR ''.''),
          Opt (Atom (Lit CHR ''['')), Group 2 (Plus (NoneOf ''[]'')), Opt (Atom (Lit CHR '']'')),
          Star Space, Atom (Lit CHR ''('')]"

definition plain_name_pattern :: regex where
  "plain_name_pattern =
     Cat [Opt (Atom (Lit CHR ''['')), Group 1 (Plus (NoneOf ''[]'')), Opt (Atom (Lit CHR '']'')),
          Star Space, Atom (Lit CHR ''('')]"

text \<open>
  The pattern of line 126, under \<open>DOTALL\<close> and \<open>IGNORECASE\<close>:
  \<^verbatim>\<open>,?\s*CONSTRAINT\s+\[?[^\]]*\]?\s+(PRIMARY KEY|UNIQUE|FOREIGN KEY|CHECK).*?(?:WITH\s*\([^)]*\))?.*?(?=,\s*\[|$)\<close>
\<close>

definition constraint_pattern :: regex where
  "constraint_pattern =
     Cat [Opt (Atom (Lit CHR '','')), Star Space, WordI ''CONSTRAINT'', Plus Space,
          Opt (Atom (Lit CHR ''['')), Star (NoneOf '']''), Opt (Atom (Lit CHR '']'')),
          Plus Space,
          Group 1 (Alts [WordI ''PRIMARY KEY'', WordI ''UNIQUE'', WordI ''FOREIGN KEY'',
                         WordI ''CHECK'']),
          StarLazy AnyChar,
          Opt (Cat [WordI ''WITH'', Star Space, Atom (Lit CHR ''(''), Star (NoneOf '')''),
                    Atom (Lit CHR '')'')]),
          StarLazy AnyChar,
          Lookahead (Alt (Cat [Atom (Lit CHR '',''), Star Space, Atom (Lit CHR ''['')]) Eol)]"

text \<open>
  The loop of lines 107 to 116 over \<open>enumerate(table_content)\<close>, with the variables
  \<open>paren_depth\<close>, \<open>start_idx\<close> and \<open>end_idx\<close>; it returns \<open>(start_idx, end_idx)\<close>, and
  \<open>end_idx\<close> is \<open>-1\<close> when the loop ends without \<open>break\<close>.
\<close>

fun find_bounds :: "string \<Rightarrow> int \<Rightarrow> int \<Rightarrow> int \<Rightarrow> int \<times> int" where
  "find_bounds [] i paren_depth start_idx = (start_idx, - 1)"
| "find_bounds (c # cs) i paren_depth start_idx =
     (if c = CHR ''('' then
        find_bounds cs (i + 1) (paren_depth + 1)
          (if paren_depth = 0 \<and> start_idx = - 1 then i + 1 else start_idx)
      else if c = CHR '')'' then
        (if paren_depth - 1 = 0 \<and> start_idx \<noteq> - 1 then (start_idx, i)
         else find_bounds cs (i + 1) (paren_depth - 1) start_idx)
      else find_bounds cs (i + 1) paren_depth start_idx)"

text \<open>\<open>s[a:b]\<close>, with Python's reading of negative and too large indices.\<close>

definition slice :: "string \<Rightarrow> int \<Rightarrow> int \<Rightarrow> string" where
  "slice s a b =
     (let n = int (length s);
          a' = (if a < 0 then max (a + n) 0 else min a n);
          b' = (if b < 0 then max (b + n) 0 else min b n)
      in drop (nat a') (take (nat b') s))"

definition table_name_match :: "string \<Rightarrow> (string option \<times> string) option" where
  "table_name_match table_content =
     (case re_match qualified_name_pattern table_content of
        Some m \<Rightarrow> Some (group m 1, the (group m 2))
      | None \<Rightarrow>
          (case re_match plain_name_pattern table_content of
             None \<Rightarrow> None
           | Some m \<Rightarrow> Some (None, the (group m 1))))"

definition parse_single_table :: "string \<Rightarrow> table_def option" where
  "parse_single_table table_content =
     (case table_name_match table_content of
        None \<Rightarrow> None
      | Some (schema_name, table_name) \<Rightarrow>
          (case find_bounds table_content 0 0 (- 1) of
             (start_idx, end_idx) \<Rightarrow>
               if start_idx = - 1 \<or> end_idx = - 1 then None
               else
                 (let columns_raw = slice table_content start_idx end_idx;
                      columns_raw' = re_sub_empty constraint_pattern [] columns_raw
                  in Some \<lparr>schema = schema_name, name = table_name,
                           columns = parse_columns columns_raw'\<rparr>)))"

section \<open>\<open>parse_sql_server_ddl\<close>\<close>

text \<open>
  The four clean-up substitutions of lines 70 to 73 and the split pattern of line 76:
  \<^verbatim>\<open>^GO\s*$\<close>, \<^verbatim>\<open>^USE\s+.*$\<close>, \<^verbatim>\<open>^SET\s+.*$\<close> (\<open>MULTILINE\<close>, \<open>IGNORECASE\<close>),
  \<^verbatim>\<open>/\*.*?\*/\<close> (\<open>DOTALL\<close>) and \<^verbatim>\<open>CREATE\s+TABLE\s+\<close> (\<open>IGNORECASE\<close>).
\<close>

definition go_pattern :: regex where
  "go_pattern = Cat [BolM, WordI ''GO'', Star Space, EolM]"

definition use_pattern :: regex where
  "use_pattern = Cat [BolM, WordI ''USE'', Plus Space, Star Dot, EolM]"

definition set_pattern :: regex where
  "set_pattern = Cat [BolM, WordI ''SET'', Plus Space, Star Dot, EolM]"

definition comment_pattern :: regex where
  "comment_pattern = Cat [Word ''/*'', StarLazy AnyChar, Word ''*/'']"

definition create_table_pattern :: regex where
  "create_table_pattern = Cat [WordI ''CREATE'', Plus Space, WordI ''TABLE'', Plus Space]"

definition clean_content :: "string \<Rightarrow> string" where
  "clean_content content =
     re_sub_empty comment_pattern []
       (re_sub_empty set_pattern []
          (re_sub_empty use_pattern []
             (re_sub_empty go_pattern [] content)))"

text \<open>\<open>tables_raw\<close>, and \<open>tables_raw[1:]\<close> as its tail.\<close>

definition tables_raw :: "string \<Rightarrow> string list" where
  "tables_raw content = re_split create_table_pattern [] (clean_content content) []"

text \<open>
  The dictionary returned by \<open>_parse_single_table\<close> has three keys, so \<open>if table_info\<close> is
  false for \<open>None\<close> only.
\<close>

definition parse_sql_server_ddl :: "string \<Rightarrow> table_def list" where
  "parse_sql_server_ddl content = List.map_filter parse_single_table (tl (tables_raw content))"

section \<open>\<open>generate_databricks_ddl\<close>\<close>

definition column_line :: "column_def \<Rightarrow> string" where
  "column_line col =
     (let databricks_type = convert_data_type (col_type col) (col_params col);
          null_clause = (if nullable col then [] else '' NOT NULL'')
      in ''  '' @ col_name col @ '' '' @ databricks_type @ null_clause)"

definition newline :: string where
  "newline = [CHR 0x0A]"

definition generate_databricks_ddl :: "table_def \<Rightarrow> bool \<Rightarrow> string" where
  "generate_databricks_ddl table use_catalog =
     (let full_table_name =
            (if use_catalog \<and> truthy (schema table)
             then the (schema table) @ ''.'' @ name table
             else name table);
          column_defs = map column_line (columns table);
          ddl_parts = [''CREATE TABLE IF NOT EXISTS '' @ full_table_name @ '' ('',
                       join ('','' @ newline) column_defs,
                       '')'',
                       ''USING DELTA;'']
      in join newline ddl_parts)"

section \<open>Notions used in the statements\<close>

text \<open>
  The nesting depth a text leaves behind: opening minus closing parentheses. It is
  counted, not computed by a loop, and may be negative.
\<close>

definition depth_of :: "string \<Rightarrow> int" where
  "depth_of s = int (count_list s CHR ''('') - int (count_list s CHR '')'')"


text \<open>
  The column section of a rendered block: the text between the first parenthesis and
  its match, found by the scan of \<open>_parse_single_table\<close>.
\<close>

definition column_section :: "string \<Rightarrow> string" where
  "column_section ddl =
     (case find_bounds ddl 0 0 (- 1) of (start_idx, end_idx) \<Rightarrow> slice ddl start_idx end_idx)"

text \<open>
  The capture groups that every match of a pattern sets: those of both parts of a
  concatenation, those common to both branches of an alternative, the group itself.
  \<open>must_all\<close> is the same for the patterns still to be matched.
\<close>

fun must_set :: "regex \<Rightarrow> nat set" where
  "must_set (Seq a b) = must_set a \<union> must_set b"
| "must_set (Alt a b) = must_set a \<inter> must_set b"
| "must_set (Group n r) = insert n (must_set r)"
| "must_set (GroupEnd n s) = {n}"
| "must_set r = {}"

fun must_all :: "regex list \<Rightarrow> nat set" where
  "must_all [] = {}"
| "must_all (r # k) = must_set r \<union> must_all k"

section \<open>The type mapping\<close>

lemma lower_decimal: "lower ''decimal'' = ''decimal''"
  by code_simp

lemma lower_numeric: "lower ''numeric'' = ''numeric''"
  by code_simp

lemma lower_float: "lower ''float'' = ''float''"
  by code_simp

lemma lower_nvarchar: "lower ''nvarchar'' = ''nvarchar''"
  by code_simp

lemma py_int_Nil: "py_int [] = None"
  by code_simp

lemma float_default: "map_of type_mapping ''float'' = Some ''DOUBLE''"
  by code_simp

text \<open>
  \<open>int\<close> accepts padding with spaces and a single underscore between digits, and rejects
  a separator character such as \<open>0x1C\<close> next to the digits.
\<close>

lemma int_unsigned_digit_limit: "int_unsigned (replicate 4301 CHR ''0'') = None"
  by (simp add: int_unsigned_def max_str_digits_def)

lemma py_int_examples:
  "py_int '' 1_0 '' = Some 10"
  "py_int ''-12'' = Some (- 12)"
  "py_int [CHR 0x1C, CHR ''5''] = None"
  "py_int ''1__0'' = None"
  "py_int ''10,2'' = None"
  by code_simp+

text \<open>
  C3, as the claim states it, fails for the empty parameter string: the test
  \<open>and params\<close> is false for it, and the static table answers with a bare \<open>DECIMAL\<close>, not
  with \<open>DECIMAL()\<close>.
\<close>

theorem convert_data_type_empty_params_counterexample:
  "convert_data_type ''decimal'' (Some []) = ''DECIMAL''"
  by code_simp

text \<open>
  C3, amended: \<open>decimal\<close> and \<open>numeric\<close> with a non-empty parameter string \<open>p\<close> give
  \<open>DECIMAL(p)\<close> verbatim; \<open>money\<close> without parameters gives \<open>DECIMAL(19,4)\<close>; \<open>float\<close> with a
  parameter string that \<open>int\<close> reads as \<open>n\<close> gives \<open>FLOAT\<close> for \<open>n < 25\<close> and \<open>DOUBLE\<close>
  otherwise, and \<open>DOUBLE\<close> when \<open>int\<close> rejects the string; \<open>nvarchar\<close> gives \<open>STRING\<close> whatever
  the parameters are. The examples of the claim are instances: \<open>("decimal", "10,2")\<close>,
  \<open>("float", "10")\<close>, \<open>("float", "30")\<close>, \<open>("nvarchar", "50")\<close>.
\<close>

theorem convert_data_type_rules:
  "(p \<noteq> [] \<longrightarrow>
      convert_data_type ''decimal'' (Some p) = ''DECIMAL('' @ p @ '')'' \<and>
      convert_data_type ''numeric'' (Some p) = ''DECIMAL('' @ p @ '')'') \<and>
   convert_data_type ''decimal'' (Some ''10,2'') = ''DECIMAL(10,2)'' \<and>
   convert_data_type ''money'' None = ''DECIMAL(19,4)'' \<and>
   convert_data_type ''float'' (Some p) =
     (case py_int p of
        Some n \<Rightarrow> if n < 25 then ''FLOAT'' else ''DOUBLE''
      | None \<Rightarrow> ''DOUBLE'') \<and>
   convert_data_type ''float'' (Some ''10'') = ''FLOAT'' \<and>
   convert_data_type ''float'' (Some ''30'') = ''DOUBLE'' \<and>
   convert_data_type ''nvarchar'' q = ''STRING'' \<and>
   convert_data_type ''nvarchar'' (Some ''50'') = ''STRING''"
proof (intro conjI impI)
  assume "p \<noteq> []"
  then show "convert_data_type ''decimal'' (Some p) = ''DECIMAL('' @ p @ '')''"
    by (simp add: convert_data_type_def lower_decimal truthy_def)
next
  assume "p \<noteq> []"
  then show "convert_data_type ''numeric'' (Some p) = ''DECIMAL('' @ p @ '')''"
    by (simp add: convert_data_type_def lower_numeric truthy_def)
next
  show "convert_data_type ''decimal'' (Some ''10,2'') = ''DECIMAL(10,2)''"
    by code_simp
next
  show "convert_data_type ''money'' None = ''DECIMAL(19,4)''"
    by code_simp
next
  show "convert_data_type ''float'' (Some p) =
     (case py_int p of
        Some n \<Rightarrow> if n < 25 then ''FLOAT'' else ''DOUBLE''
      | None \<Rightarrow> ''DOUBLE'')"
    by (cases "p = []")
       (simp_all add: convert_data_type_def lower_float truthy_def py_int_Nil float_default)
next
  show "convert_data_type ''float'' (Some ''10'') = ''FLOAT''"
    by code_simp
next
  show "convert_data_type ''float'' (Some ''30'') = ''DOUBLE''"
    by code_simp
next
  show "convert_data_type ''nvarchar'' q = ''STRING''"
    by (simp add: convert_data_type_def lower_nvarchar)
next
  show "convert_data_type ''nvarchar'' (Some ''50'') = ''STRING''"
    by code_simp
qed

theorem convert_data_type_rules_witness:
  "''19,0'' \<noteq> [] \<and>
   convert_data_type ''decimal'' (Some ''19,0'') = ''DECIMAL(19,0)'' \<and>
   convert_data_type ''numeric'' (Some ''19,0'') = ''DECIMAL(19,0)''"
  using convert_data_type_rules [of "''19,0''"] by simp

text \<open>
  C10: without parameters the special cases fall through to the static table:
  \<open>decimal\<close> and \<open>numeric\<close> give a bare \<open>DECIMAL\<close>, \<open>float\<close> gives \<open>DOUBLE\<close>.
\<close>

theorem convert_data_type_no_params:
  "convert_data_type ''decimal'' None = ''DECIMAL'' \<and>
   convert_data_type ''numeric'' None = ''DECIMAL'' \<and>
   convert_data_type ''float'' None = ''DOUBLE''"
  by code_simp

section \<open>Splitting at top-level commas\<close>

lemma depth_of_Nil: "depth_of [] = 0"
  by (simp add: depth_of_def)

lemma depth_of_Cons:
  "depth_of (c # cs) =
     (if c = CHR ''('' then 1 else if c = CHR '')'' then - 1 else 0) + depth_of cs"
  by (simp add: depth_of_def)

lemma depth_of_append: "depth_of (u @ v) = depth_of u + depth_of v"
  by (induction u) (simp_all add: depth_of_Nil depth_of_Cons)

lemma loop_prefix:
  "\<exists>parts' current'. smart_split_loop (u @ rest) parts current d
      = smart_split_loop rest parts' current' (d + depth_of u)"
proof (induction u arbitrary: parts current d)
  case Nil
  show ?case by (auto simp: depth_of_Nil)
next
  case (Cons c u)
  consider (paren_in) "c = CHR ''(''" | (paren_out) "c = CHR '')''"
    | (cut) "c = CHR '',''" "d = 0"
    | (other) "c \<noteq> CHR ''(''" "c \<noteq> CHR '')''" "\<not> (c = CHR '','' \<and> d = 0)"
    by blast
  then show ?case
  proof cases
    case paren_in
    have "d + 1 + depth_of u = d + depth_of (c # u)"
      using paren_in by (simp add: depth_of_Cons)
    with paren_in Cons[of parts "current @ [c]" "d + 1"] show ?thesis by simp
  next
    case paren_out
    have "d - 1 + depth_of u = d + depth_of (c # u)"
      using paren_out by (simp add: depth_of_Cons)
    with paren_out Cons[of parts "current @ [c]" "d - 1"] show ?thesis by simp
  next
    case cut
    have "d + depth_of u = d + depth_of (c # u)"
      using cut by (simp add: depth_of_Cons)
    with cut Cons[of "parts @ [strip current]" "[]" d] show ?thesis by simp
  next
    case other
    have "d + depth_of u = d + depth_of (c # u)"
      using other by (simp add: depth_of_Cons)
    with other Cons[of parts "current @ [c]" d] show ?thesis by auto
  qed
qed

lemma loop_inside:
  assumes "\<forall>n\<le>length w. 0 < d + depth_of (take n w)"
  shows "smart_split_loop (w @ rest) parts current d
           = smart_split_loop rest parts (current @ w) (d + depth_of w)"
  using assms
proof (induction w arbitrary: current d)
  case Nil
  show ?case by (simp add: depth_of_Nil)
next
  case (Cons c w)
  from Cons.prems have pos: "0 < d"
    by (auto simp: depth_of_Nil dest: spec[of _ 0])
  have step: "\<forall>n\<le>length w. 0 < (d + depth_of [c]) + depth_of (take n w)"
  proof (intro allI impI)
    fix n assume "n \<le> length w"
    with Cons.prems have "0 < d + depth_of (take (Suc n) (c # w))" by auto
    then show "0 < (d + depth_of [c]) + depth_of (take n w)"
      by (simp add: depth_of_Cons depth_of_Nil)
  qed
  have next_state: "smart_split_loop ((c # w) @ rest) parts current d
      = smart_split_loop (w @ rest) parts (current @ [c]) (d + depth_of [c])"
    using pos by (simp add: depth_of_Cons depth_of_Nil)
  have total: "d + depth_of [c] + depth_of w = d + depth_of (c # w)"
    by (simp add: depth_of_Cons depth_of_Nil)
  from Cons.IH[OF step, of "current @ [c]"] show ?case
    unfolding next_state total by simp
qed

lemma loop_span:
  assumes "0 \<le> d" and "\<forall>p\<in>set (prefixes w). 0 \<le> depth_of p"
  shows "smart_split_loop (''('' @ w @ '')'' @ v) parts current d
           = smart_split_loop v parts (current @ ''('' @ w @ '')'') (d + depth_of w)"
proof -
  have inner: "\<forall>n\<le>length w. 0 < (d + 1) + depth_of (take n w)"
  proof (intro allI impI)
    fix n
    have "take n w \<in> set (prefixes w)"
      by (simp add: in_set_prefixes take_is_prefix)
    with assms(2) have "0 \<le> depth_of (take n w)" by blast
    with assms(1) show "0 < (d + 1) + depth_of (take n w)" by simp
  qed
  from loop_inside[OF inner, of "'')'' @ v" parts "current @ ''(''"]
  show ?thesis by simp
qed

lemma dropWhile_keeps:
  assumes "x \<noteq> []" and "\<not> P (hd x)"
  shows "\<exists>a'. dropWhile P (a @ x @ b) = a' @ x @ b"
proof (induction a)
  case Nil
  from assms have "dropWhile P (x @ b) = x @ b"
    by (cases x) simp_all
  then show ?case by (intro exI[of _ "[]"]) simp
next
  case (Cons y a)
  show ?case
  proof (cases "P y")
    case True
    with Cons show ?thesis by simp
  next
    case False
    then show ?thesis by (intro exI[of _ "y # a"]) simp
  qed
qed

lemma strip_keeps:
  assumes "x \<noteq> []" and "\<not> is_space (hd x)" and "\<not> is_space (last x)"
  shows "\<exists>a' b'. strip (a @ x @ b) = a' @ x @ b'"
proof -
  from dropWhile_keeps[of x is_space a b] assms(1,2) obtain a' where
    1: "dropWhile is_space (a @ x @ b) = a' @ x @ b" by blast
  have rx: "rev x \<noteq> []" "\<not> is_space (hd (rev x))"
    using assms by (simp_all add: hd_rev)
  from dropWhile_keeps[of "rev x" is_space "rev b" "rev a'"] rx obtain b' where
    2: "dropWhile is_space (rev b @ rev x @ rev a') = b' @ rev x @ rev a'" by blast
  have "strip (a @ x @ b) = a' @ x @ rev b'"
    by (simp add: strip_def 1 2)
  then show ?thesis by blast
qed

lemma loop_keeps_fragment:
  assumes "x \<noteq> []" and "\<not> is_space (hd x)" and "\<not> is_space (last x)"
    and "(\<exists>f\<in>set parts. \<exists>a b. f = a @ x @ b) \<or> (\<exists>a b. current = a @ x @ b)"
    and "smart_split_loop cs parts current d = (parts', current')"
  shows "(\<exists>f\<in>set parts'. \<exists>a b. f = a @ x @ b) \<or> (\<exists>a b. current' = a @ x @ b)"
  using assms(4,5)
proof (induction cs arbitrary: parts current d)
  case Nil
  then show ?case by simp
next
  case (Cons c cs)
  have grow: "(\<exists>f\<in>set parts. \<exists>a b. f = a @ x @ b) \<or> (\<exists>a b. current @ [c] = a @ x @ b)"
  proof -
    from Cons.prems(1) show ?thesis
    proof
      assume "\<exists>f\<in>set parts. \<exists>a b. f = a @ x @ b"
      then show ?thesis by blast
    next
      assume "\<exists>a b. current = a @ x @ b"
      then obtain a b where "current = a @ x @ b" by blast
      then have "current @ [c] = a @ x @ (b @ [c])" by simp
      then show ?thesis by blast
    qed
  qed
  have cut: "(\<exists>f\<in>set (parts @ [strip current]). \<exists>a b. f = a @ x @ b) \<or> (\<exists>a b. [] = a @ x @ b)"
  proof -
    from Cons.prems(1) show ?thesis
    proof
      assume "\<exists>f\<in>set parts. \<exists>a b. f = a @ x @ b"
      then show ?thesis by auto
    next
      assume "\<exists>a b. current = a @ x @ b"
      then obtain a b where "current = a @ x @ b" by blast
      with strip_keeps[OF assms(1-3), of a b]
      have "\<exists>a b. strip current = a @ x @ b" by simp
      then show ?thesis by auto
    qed
  qed
  show ?case
  proof (cases "c = CHR ''(''")
    case True
    with Cons.prems(2) have "smart_split_loop cs parts (current @ [c]) (d + 1) = (parts', current')"
      by simp
    from Cons.IH[OF grow this] show ?thesis .
  next
    case notopen: False
    show ?thesis
    proof (cases "c = CHR '')''")
      case True
      with Cons.prems(2) have "smart_split_loop cs parts (current @ [c]) (d - 1) = (parts', current')"
        by simp
      from Cons.IH[OF grow this] show ?thesis .
    next
      case notclose: False
      show ?thesis
      proof (cases "c = CHR '','' \<and> d = 0")
        case True
        with Cons.prems(2)
        have "smart_split_loop cs (parts @ [strip current]) [] d = (parts', current')"
          by simp
        from Cons.IH[OF cut this] show ?thesis .
      next
        case False
        with notopen notclose Cons.prems(2)
        have "smart_split_loop cs parts (current @ [c]) d = (parts', current')"
          by auto
        from Cons.IH[OF grow this] show ?thesis .
      qed
    qed
  qed
qed

lemma span_ends: "''('' @ w @ '')'' \<noteq> []"
  "\<not> is_space (hd (''('' @ w @ '')''))" "\<not> is_space (last (''('' @ w @ '')''))"
  by (simp_all add: is_space_def whitespace_chars_def)

text \<open>
  C2, as the claim states it, fails when a closing parenthesis comes before the span: the
  depth is \<open>-1\<close> before the span opens and \<open>0\<close> inside it, and the comma inside
  \<open>(a,b)\<close> is taken as a split point.
\<close>

theorem smart_split_negative_depth_counterexample:
  "smart_split '')(a,b)'' = ['')(a'', ''b)'']"
  by code_simp

text \<open>
  C2, amended: let the text be \<open>u(w)v\<close>, where the depth that \<open>u\<close> leaves behind is not
  negative and no parenthesis inside \<open>w\<close> closes the one that opens the span. Then the
  loop reaches the end of the span with the whole span at the end of the fragment it is
  collecting, so no comma inside the span was a split point; some returned fragment
  contains the whole span; and in every state of the loop a comma is a split point
  exactly when the depth is 0.
\<close>

theorem smart_split_span_unbroken:
  assumes "0 \<le> depth_of u" and "\<forall>p\<in>set (prefixes w). 0 \<le> depth_of p"
  shows "(\<exists>parts current.
            smart_split_loop (u @ ''('' @ w @ '')'' @ v) [] [] 0
              = smart_split_loop v parts (current @ ''('' @ w @ '')'') (depth_of u + depth_of w)) \<and>
         (\<exists>f\<in>set (smart_split (u @ ''('' @ w @ '')'' @ v)). \<exists>a b. f = a @ ''('' @ w @ '')'' @ b) \<and>
         (\<forall>cs parts current d.
            smart_split_loop (CHR '','' # cs) parts current d
              = (if d = 0 then smart_split_loop cs (parts @ [strip current]) [] d
                 else smart_split_loop cs parts (current @ '','') d))"
proof (intro conjI)
  from loop_prefix[of u "''('' @ w @ '')'' @ v" "[]" "[]" 0]
  obtain parts current where
    pre: "smart_split_loop (u @ ''('' @ w @ '')'' @ v) [] [] 0
            = smart_split_loop (''('' @ w @ '')'' @ v) parts current (depth_of u)"
    by auto
  have state: "smart_split_loop (u @ ''('' @ w @ '')'' @ v) [] [] 0
      = smart_split_loop v parts (current @ ''('' @ w @ '')'') (depth_of u + depth_of w)"
    using pre loop_span[OF assms, of v parts current] by simp
  then show "\<exists>parts current.
            smart_split_loop (u @ ''('' @ w @ '')'' @ v) [] [] 0
              = smart_split_loop v parts (current @ ''('' @ w @ '')'') (depth_of u + depth_of w)"
    by blast
  obtain parts' current' where
    fin: "smart_split_loop v parts (current @ ''('' @ w @ '')'') (depth_of u + depth_of w)
            = (parts', current')"
    by (cases "smart_split_loop v parts (current @ ''('' @ w @ '')'') (depth_of u + depth_of w)")
  have start: "(\<exists>f\<in>set parts. \<exists>a b. f = a @ (''('' @ w @ '')'') @ b) \<or>
               (\<exists>a b. current @ ''('' @ w @ '')'' = a @ (''('' @ w @ '')'') @ b)"
    by (intro disjI2 exI[of _ current] exI[of _ "[]"]) simp
  from loop_keeps_fragment[OF span_ends(1)[of w] span_ends(2)[of w] span_ends(3)[of w] start fin]
  have inv: "(\<exists>f\<in>set parts'. \<exists>a b. f = a @ (''('' @ w @ '')'') @ b) \<or>
             (\<exists>a b. current' = a @ (''('' @ w @ '')'') @ b)" .
  have res: "smart_split (u @ ''('' @ w @ '')'' @ v)
               = (if current' \<noteq> [] then parts' @ [strip current'] else parts')"
    unfolding smart_split_def state fin by simp
  from inv show "\<exists>f\<in>set (smart_split (u @ ''('' @ w @ '')'' @ v)). \<exists>a b. f = a @ ''('' @ w @ '')'' @ b"
  proof
    assume "\<exists>f\<in>set parts'. \<exists>a b. f = a @ (''('' @ w @ '')'') @ b"
    then show ?thesis unfolding res by auto
  next
    assume "\<exists>a b. current' = a @ (''('' @ w @ '')'') @ b"
    then obtain a b where c: "current' = a @ (''('' @ w @ '')'') @ b" by blast
    then have ne: "current' \<noteq> []" by simp
    from strip_keeps[OF span_ends(1)[of w] span_ends(2)[of w] span_ends(3)[of w], of a b] c
    obtain a' b' where "strip current' = a' @ (''('' @ w @ '')'') @ b'" by auto
    then show ?thesis unfolding res using ne by auto
  qed
next
  show "\<forall>cs parts current d.
            smart_split_loop (CHR '','' # cs) parts current d
              = (if d = 0 then smart_split_loop cs (parts @ [strip current]) [] d
                 else smart_split_loop cs parts (current @ '','') d)"
    by simp
qed

theorem smart_split_span_unbroken_witness:
  "0 \<le> depth_of ''a decimal'' \<and> list_all (\<lambda>p. 0 \<le> depth_of p) (prefixes ''10,2'') \<and>
   (\<exists>f\<in>set (smart_split ''a decimal(10,2), b int''). \<exists>a b. f = a @ ''(10,2)'' @ b)"
proof -
  have h1: "0 \<le> depth_of ''a decimal''" by code_simp
  have h2: "\<forall>p\<in>set (prefixes ''10,2''). 0 \<le> depth_of p" by code_simp
  have h3: "list_all (\<lambda>p. 0 \<le> depth_of p) (prefixes ''10,2'')"
    using h2 unfolding list_all_iff .
  from smart_split_span_unbroken[OF h1 h2, of "'', b int''"] h1 h3
  show ?thesis by simp
qed

section \<open>The end-to-end example and the round trip\<close>

text \<open>
  C1: the code on the input of the claim. The parse gives one table with schema \<open>dbo\<close>
  and the two columns the claim lists, and the rendered block has the two column lines
  and nothing of the constraint clause. The name, however, is \<open>Orders\<close> followed by a
  space: the name group \<open>[^\[\]]+\<close> is greedy and takes the space before the parenthesis,
  which the \<open>\s*\<close> after it was written to absorb.
\<close>

theorem orders_example:
  "parse_sql_server_ddl
     ''CREATE TABLE dbo.Orders ( [Id] int NOT NULL, [Amount] decimal(10,2) NULL, CONSTRAINT PK_Orders PRIMARY KEY (Id) )''
   = [\<lparr>schema = Some ''dbo'', name = ''Orders '',
        columns =
          [\<lparr>col_name = ''Id'', col_type = ''int'', col_params = None, nullable = False\<rparr>,
           \<lparr>col_name = ''Amount'', col_type = ''decimal'', col_params = Some ''10,2'',
              nullable = True\<rparr>]\<rparr>] \<and>
   generate_databricks_ddl
     \<lparr>schema = Some ''dbo'', name = ''Orders '',
        columns =
          [\<lparr>col_name = ''Id'', col_type = ''int'', col_params = None, nullable = False\<rparr>,
           \<lparr>col_name = ''Amount'', col_type = ''decimal'', col_params = Some ''10,2'',
              nullable = True\<rparr>]\<rparr> True
   = ''CREATE TABLE IF NOT EXISTS dbo.Orders  ('' @ newline @
     ''  Id INT NOT NULL,'' @ newline @
     ''  Amount DECIMAL(10,2)'' @ newline @
     '')'' @ newline @
     ''USING DELTA;''"
  by code_simp

text \<open>
  C4: the round trip on a table with one column that is not nullable. The rendered
  column line is \<open>Id INT NOT NULL\<close>; read back by \<open>_parse_columns\<close>, the greedy name group
  takes \<open>Id INT NOT\<close> as the name and \<open>NULL\<close> as the type, and the column comes back
  nullable.
\<close>

theorem roundtrip_not_null_column:
  "map (\<lambda>c. (col_name c, nullable c))
     (parse_columns (column_section (generate_databricks_ddl
        \<lparr>schema = None, name = ''T'',
         columns = [\<lparr>col_name = ''Id'', col_type = ''int'', col_params = None,
                     nullable = False\<rparr>]\<rparr> False)))
   = [(''Id INT NOT'', True)]"
  by code_simp

section \<open>Fragments that give no table, and tables without columns\<close>






lemma map_filter_member:
  "x \<in> set xs \<Longrightarrow> f x = Some y \<Longrightarrow> y \<in> set (List.map_filter f xs)"
  by (induction xs) (auto simp: List.map_filter_simps split: option.splits)

text \<open>
  C8: a fragment whose name is found (\<open>table_name_match\<close>) and whose column body is found
  (\<open>start_idx\<close> and \<open>end_idx\<close> both set) but whose body gives no column is still in the
  result of \<open>parse_sql_server_ddl\<close>, with an empty column list, and it is rendered as a
  block with an empty line between the parentheses.
\<close>

theorem empty_table_still_emitted:
  assumes "f \<in> set (tl (tables_raw content))"
    and "table_name_match f = Some (sch, nm)"
    and "find_bounds f 0 0 (- 1) = (a, b)" and "a \<noteq> - 1" and "b \<noteq> - 1"
    and "parse_columns (re_sub_empty constraint_pattern [] (slice f a b)) = []"
  shows "\<lparr>schema = sch, name = nm, columns = []\<rparr> \<in> set (parse_sql_server_ddl content) \<and>
         generate_databricks_ddl \<lparr>schema = sch, name = nm, columns = []\<rparr> use_catalog
           = ''CREATE TABLE IF NOT EXISTS '' @
             (if use_catalog \<and> truthy sch then the sch @ ''.'' @ nm else nm) @
             '' ('' @ newline @ newline @ '')'' @ newline @ ''USING DELTA;''"
proof
  from assms(2-6) have "parse_single_table f = Some \<lparr>schema = sch, name = nm, columns = []\<rparr>"
    by (simp add: parse_single_table_def)
  with assms(1) show "\<lparr>schema = sch, name = nm, columns = []\<rparr> \<in> set (parse_sql_server_ddl content)"
    unfolding parse_sql_server_ddl_def by (rule map_filter_member)
next
  show "generate_databricks_ddl \<lparr>schema = sch, name = nm, columns = []\<rparr> use_catalog
           = ''CREATE TABLE IF NOT EXISTS '' @
             (if use_catalog \<and> truthy sch then the sch @ ''.'' @ nm else nm) @
             '' ('' @ newline @ newline @ '')'' @ newline @ ''USING DELTA;''"
    by (simp add: generate_databricks_ddl_def newline_def)
qed

theorem empty_table_still_emitted_witness:
  "parse_sql_server_ddl ''CREATE TABLE [T] (x)'' = [\<lparr>schema = None, name = ''T'', columns = []\<rparr>] \<and>
   \<lparr>schema = None, name = ''T'', columns = []\<rparr> \<in> set (parse_sql_server_ddl ''CREATE TABLE [T] (x)'') \<and>
   generate_databricks_ddl \<lparr>schema = None, name = ''T'', columns = []\<rparr> False
     = ''CREATE TABLE IF NOT EXISTS T ('' @ newline @ newline @ '')'' @ newline @ ''USING DELTA;''"
proof -
  have h1: "''[T] (x)'' \<in> set (tl (tables_raw ''CREATE TABLE [T] (x)''))" by code_simp
  have h2: "table_name_match ''[T] (x)'' = Some (None, ''T'')" by code_simp
  have h3: "find_bounds ''[T] (x)'' 0 0 (- 1) = (5, 6)" by code_simp
  have h4: "(5::int) \<noteq> - 1" "(6::int) \<noteq> - 1" by simp_all
  have h5: "parse_columns (re_sub_empty constraint_pattern [] (slice ''[T] (x)'' 5 6)) = []"
    by code_simp
  have h6: "parse_sql_server_ddl ''CREATE TABLE [T] (x)'' = [\<lparr>schema = None, name = ''T'', columns = []\<rparr>]"
    by code_simp
  from empty_table_still_emitted[OF h1 h2 h3 h4 h5, of False] h6 show ?thesis by simp
qed

section \<open>Capture groups of a successful match\<close>

lemma run_sets_groups:
  "run k b s caps = Some (b', s', caps') \<Longrightarrow> n \<in> must_all k \<union> fst ` set caps
     \<Longrightarrow> n \<in> fst ` set caps'"
proof (induction k b s caps arbitrary: b' s' caps' rule: run.induct)
  case (1 b s caps)
  then show ?case by simp
next
  case (2 c k b s caps)
  show ?case
  proof (cases s)
    case Nil
    with 2 show ?thesis by simp
  next
    case (Cons x xs)
    show ?thesis
    proof (cases "cmatch c x")
      case True
      with "2.prems"(1) Cons have r: "run k (x # b) xs caps = Some (b', s', caps')" by simp
      from "2.prems"(2) have "n \<in> must_all k \<union> fst ` set caps" by simp
      from "2.IH"(1)[OF Cons True r this] show ?thesis .
    next
      case False
      with "2.prems"(1) Cons show ?thesis by simp
    qed
  qed
next
  case (3 k b s caps)
  from "3.prems"(1) have r: "run k b s caps = Some (b', s', caps')" by simp
  from "3.prems"(2) have "n \<in> must_all k \<union> fst ` set caps" by simp
  from "3.IH"(1)[OF r this] show ?case .
next
  case (4 r1 r2 k b s caps)
  from "4.prems"(1) have r: "run (r1 # r2 # k) b s caps = Some (b', s', caps')" by simp
  from "4.prems"(2) have "n \<in> must_all (r1 # r2 # k) \<union> fst ` set caps" by auto
  from "4.IH"(1)[OF r this] show ?case .
next
  case (5 r1 r2 k b s caps)
  show ?case
  proof (cases "run (r1 # k) b s caps")
    case None
    with "5.prems"(1) have r: "run (r2 # k) b s caps = Some (b', s', caps')" by simp
    from "5.prems"(2) have "n \<in> must_all (r2 # k) \<union> fst ` set caps" by auto
    from "5.IH"(2)[OF None r this] show ?thesis .
  next
    case (Some res)
    with "5.prems"(1) have r: "run (r1 # k) b s caps = Some (b', s', caps')" by simp
    from "5.prems"(2) have "n \<in> must_all (r1 # k) \<union> fst ` set caps" by auto
    from "5.IH"(1)[OF r this] show ?thesis .
  qed
next
  case (6 c k b s caps)
  from "6.prems"(2) have m: "n \<in> must_all k \<union> fst ` set caps" by simp
  show ?case
  proof (cases s)
    case Nil
    with "6.prems"(1) have r: "run k b s caps = Some (b', s', caps')" by simp
    from "6.IH"(1)[OF Nil r m] show ?thesis .
  next
    case (Cons x xs)
    show ?thesis
    proof (cases "cmatch c x")
      case False
      with "6.prems"(1) Cons have r: "run k b s caps = Some (b', s', caps')" by simp
      from "6.IH"(4)[OF Cons False r m] show ?thesis .
    next
      case True
      show ?thesis
      proof (cases "run (Star c # k) (x # b) xs caps")
        case None
        with "6.prems"(1) Cons True have r: "run k b s caps = Some (b', s', caps')" by simp
        from "6.IH"(3)[OF Cons True None r m] show ?thesis .
      next
        case (Some res)
        with "6.prems"(1) Cons True
        have r: "run (Star c # k) (x # b) xs caps = Some (b', s', caps')"
          by simp
        from "6.IH"(2)[OF Cons True r "6.prems"(2)] show ?thesis .
      qed
    qed
  qed
next
  case (7 c k b s caps)
  from "7.prems"(2) have m: "n \<in> must_all k \<union> fst ` set caps" by simp
  show ?case
  proof (cases "run k b s caps")
    case (Some res)
    with "7.prems"(1) have r: "run k b s caps = Some (b', s', caps')" by simp
    from "7.IH"(1)[OF r m] show ?thesis .
  next
    case None
    show ?thesis
    proof (cases s)
      case Nil
      with "7.prems"(1) None show ?thesis by simp
    next
      case (Cons x xs)
      show ?thesis
      proof (cases "cmatch c x")
        case True
        with "7.prems"(1) None Cons
        have r: "run (StarLazy c # k) (x # b) xs caps = Some (b', s', caps')" by simp
        from "7.IH"(2)[OF None Cons True r "7.prems"(2)] show ?thesis .
      next
        case False
        with "7.prems"(1) None Cons show ?thesis by simp
      qed
    qed
  qed
next
  case (8 n' r k b s caps)
  from "8.prems"(1) have r: "run (r # GroupEnd n' s # k) b s caps = Some (b', s', caps')" by simp
  from "8.prems"(2) have "n \<in> must_all (r # GroupEnd n' s # k) \<union> fst ` set caps" by auto
  from "8.IH"(1)[OF r this] show ?case .
next
  case (9 n' s0 k b s caps)
  from "9.prems"(1) have r: "run k b s ((n', s0, s) # caps) = Some (b', s', caps')" by simp
  from "9.prems"(2) have "n \<in> must_all k \<union> fst ` set ((n', s0, s) # caps)" by auto
  from "9.IH"(1)[OF r this] show ?case .
next
  case (10 k b s caps)
  from "10.prems"(2) have m: "n \<in> must_all k \<union> fst ` set caps" by simp
  show ?case
  proof (cases "b = []")
    case True
    with "10.prems"(1) have r: "run k b s caps = Some (b', s', caps')" by simp
    from "10.IH"(1)[OF True r m] show ?thesis .
  next
    case False
    with "10.prems"(1) show ?thesis by simp
  qed
next
  case (11 k b s caps)
  from "11.prems"(2) have m: "n \<in> must_all k \<union> fst ` set caps" by simp
  show ?case
  proof (cases "b = [] \<or> hd b = CHR 0x0A")
    case True
    with "11.prems"(1) have r: "run k b s caps = Some (b', s', caps')" by simp
    from "11.IH"(1)[OF True r m] show ?thesis .
  next
    case False
    with "11.prems"(1) show ?thesis by simp
  qed
next
  case (12 k b s caps)
  from "12.prems"(2) have m: "n \<in> must_all k \<union> fst ` set caps" by simp
  show ?case
  proof (cases "s = [] \<or> s = [CHR 0x0A]")
    case True
    with "12.prems"(1) have r: "run k b s caps = Some (b', s', caps')" by simp
    from "12.IH"(1)[OF True r m] show ?thesis .
  next
    case False
    with "12.prems"(1) show ?thesis by simp
  qed
next
  case (13 k b s caps)
  from "13.prems"(2) have m: "n \<in> must_all k \<union> fst ` set caps" by simp
  show ?case
  proof (cases "s = [] \<or> hd s = CHR 0x0A")
    case True
    with "13.prems"(1) have r: "run k b s caps = Some (b', s', caps')" by simp
    from "13.IH"(1)[OF True r m] show ?thesis .
  next
    case False
    with "13.prems"(1) show ?thesis by simp
  qed
next
  case (14 r k b s caps)
  from "14.prems"(2) have m: "n \<in> must_all k \<union> fst ` set caps" by simp
  show ?case
  proof (cases "run [r] b s caps")
    case None
    with "14.prems"(1) show ?thesis by simp
  next
    case (Some res)
    with "14.prems"(1) have r: "run k b s caps = Some (b', s', caps')" by simp
    from "14.IH"(2)[OF Some r m] show ?thesis .
  qed
qed

lemma re_match_group:
  assumes "re_match r s = Some m" and "n \<in> must_set r"
  shows "group m n \<noteq> None"
proof -
  from assms(1) obtain b' s' where "run [r] [] s [] = Some (b', s', m)"
    by (auto simp: re_match_def split: option.splits)
  from run_sets_groups[OF this, of n] assms(2) have "n \<in> fst ` set m" by simp
  then have "map_of m n \<noteq> None" by (simp add: map_of_eq_None_iff)
  then show ?thesis by (auto simp: group_def split: option.splits)
qed

lemma column_pattern_groups: "{1, 2, 4} \<subseteq> must_set column_pattern"
  by (simp add: column_pattern_def Opt_def Plus_def)

lemma qualified_name_pattern_groups: "{1, 2} \<subseteq> must_set qualified_name_pattern"
  by (simp add: qualified_name_pattern_def Opt_def Plus_def)

lemma plain_name_pattern_groups: "1 \<in> must_set plain_name_pattern"
  by (simp add: plain_name_pattern_def Opt_def Plus_def)

section \<open>The constraint filter of the column parser\<close>

lemma char_lower_upper: "char_lower (char_upper x) = char_lower x"
proof (cases "x \<in> set lower_letters")
  case True
  then show ?thesis
    by (auto simp: char_lower_def char_upper_def lower_letters_def upper_letters_def)
next
  case False
  then have "map_of (zip lower_letters upper_letters) x = None"
    by (simp add: map_of_eq_None_iff lower_letters_def upper_letters_def)
  then show ?thesis by (simp add: char_upper_def)
qed

lemma lower_of_upper: "map char_lower p = map char_lower (upper p)"
  by (simp add: upper_def char_lower_upper)

lemma space_upper: "is_space x \<Longrightarrow> char_upper x = x"
proof -
  assume "is_space x"
  then have "x \<notin> set lower_letters"
    by (auto simp: is_space_def whitespace_chars_def lower_letters_def)
  then have "map_of (zip lower_letters upper_letters) x = None"
    by (simp add: map_of_eq_None_iff lower_letters_def upper_letters_def)
  then show ?thesis by (simp add: char_upper_def)
qed

lemma run_WordI:
  assumes "w \<noteq> []" and "map char_lower p = map char_lower w"
  shows "run (WordI w # k) b (p @ rest) caps = run k (rev p @ b) rest caps"
  using assms
proof (induction w arbitrary: p b)
  case Nil
  then show ?case by simp
next
  case (Cons c w)
  from Cons.prems(2) obtain x p' where p: "p = x # p'" and x: "char_lower x = char_lower c"
    and p': "map char_lower p' = map char_lower w"
    by (cases p) auto
  show ?case
  proof (cases w)
    case Nil
    with p' have "p' = []" by simp
    with Nil p x show ?thesis by (simp add: WordI_def)
  next
    case (Cons c2 w2)
    then have w: "w \<noteq> []" by simp
    have unfold: "WordI (c # w) = Seq (Atom (LitI c)) (WordI w)"
      using Cons by (simp add: WordI_def)
    from Cons.IH[OF w p', of "x # b"] p x show ?thesis
      by (simp add: unfold)
  qed
qed

lemma run_Alts:
  assumes "r \<in> set rs" and "run (r # k) b s caps \<noteq> None"
  shows "run (Alts rs # k) b s caps \<noteq> None"
  using assms
proof (induction rs rule: Alts.induct)
  case 1
  then show ?case by simp
next
  case (2 r0)
  then show ?case by simp
next
  case (3 r0 r1 rs)
  show ?case
  proof (cases "r = r0")
    case True
    with 3 show ?thesis by (auto split: option.splits)
  next
    case False
    with 3 have "run (Alts (r1 # rs) # k) b s caps \<noteq> None" by simp
    then show ?thesis by (auto split: option.splits)
  qed
qed

lemma keyword_chars:
  assumes "kw \<in> set constraint_keywords"
  shows "kw \<noteq> []" and "\<forall>c\<in>set kw. \<not> is_space c"
  using assms
  by (auto simp: constraint_keywords_def is_space_def whitespace_chars_def)

lemma upper_not_space:
  assumes "upper p = kw" and "\<forall>c\<in>set kw. \<not> is_space c"
  shows "\<forall>c\<in>set p. \<not> is_space c"
proof
  fix c assume c: "c \<in> set p"
  show "\<not> is_space c"
  proof
    assume s: "is_space c"
    then have "char_upper c = c" by (rule space_upper)
    with c assms(1) have "c \<in> set kw" by (force simp: upper_def)
    with assms(2) s show False by blast
  qed
qed

lemma skip_pattern_matches:
  assumes "kw \<in> set constraint_keywords" and "upper p = kw"
  shows "re_match skip_pattern (p @ rest) \<noteq> None"
proof -
  from keyword_chars[OF assms(1)] have kw: "kw \<noteq> []" and ns: "\<forall>c\<in>set kw. \<not> is_space c"
    by blast+
  from assms(2) kw have pne: "p \<noteq> []" by (auto simp: upper_def)
  from upper_not_space[OF assms(2) ns] pne have hd: "\<not> is_space (hd p)" by simp
  have low: "map char_lower p = map char_lower kw"
    using lower_of_upper[of p] assms(2) by simp
  have word: "run (WordI kw # [GroupEnd 1 (p @ rest)]) [] (p @ rest) [] \<noteq> None"
    by (simp add: run_WordI[OF kw low])
  have mem: "WordI kw \<in> set (map WordI constraint_keywords)"
    using assms(1) by simp
  from run_Alts[OF mem word]
  have alts: "run [Alts (map WordI constraint_keywords), GroupEnd 1 (p @ rest)] [] (p @ rest) [] \<noteq> None" .
  from pne hd have star:
    "run [Star Space, Group 1 (Alts (map WordI constraint_keywords))] [] (p @ rest) []
       = run [Alts (map WordI constraint_keywords), GroupEnd 1 (p @ rest)] [] (p @ rest) []"
    by (cases p) simp_all
  have "run [skip_pattern] [] (p @ rest) []
       = run [Star Space, Group 1 (Alts (map WordI constraint_keywords))] [] (p @ rest) []"
    by (simp add: skip_pattern_def)
  with star alts have "run [skip_pattern] [] (p @ rest) [] \<noteq> None" by simp
  then show ?thesis by (auto simp: re_match_def split: option.splits)
qed

lemma strip_leading:
  assumes "\<forall>c\<in>set ws. is_space c" and "p \<noteq> []" and "\<forall>c\<in>set p. \<not> is_space c"
  shows "\<exists>rest'. strip (ws @ p @ rest) = p @ rest'"
proof -
  from assms(2,3) have hd: "\<not> is_space (hd p)" by simp
  from assms(2,3) have lst: "\<not> is_space (hd (rev p))" by (simp add: hd_rev)
  from assms(1) have 1: "dropWhile is_space (ws @ p @ rest) = dropWhile is_space (p @ rest)"
    by (simp add: dropWhile_append)
  from assms(2) hd have 2: "dropWhile is_space (p @ rest) = p @ rest"
    by (cases p) simp_all
  from dropWhile_keeps[of "rev p" is_space "rev rest" "[]"] assms(2) lst
  obtain a' where 3: "dropWhile is_space (rev rest @ rev p) = a' @ rev p" by auto
  have "strip (ws @ p @ rest) = p @ rev a'"
    by (simp add: strip_def 1 2 3)
  then show ?thesis by blast
qed

text \<open>
  C9: the filter of line 151 matches a keyword as a bare prefix. A fragment that, after
  optional whitespace, begins with the letters of one of the keywords of the pattern, in
  any case, gives no column, whatever follows the letters; the five keywords of the claim
  are among them. So \<open>CheckStatus int NULL\<close> gives no column, and the same column with
  the name in brackets is kept.
\<close>

theorem constraint_prefix_filter:
  "(kw \<in> set constraint_keywords \<and> (\<forall>c\<in>set ws. is_space c) \<and> upper p = kw
      \<longrightarrow> parse_column_line (ws @ p @ rest) = None) \<and>
   set [''CONSTRAINT'', ''PRIMARY'', ''UNIQUE'', ''FOREIGN'', ''CHECK''] \<subseteq> set constraint_keywords \<and>
   parse_columns ''CheckStatus int NULL'' = [] \<and>
   parse_columns ''[CheckStatus] int NULL'' =
     [\<lparr>col_name = ''CheckStatus'', col_type = ''int'', col_params = None, nullable = True\<rparr>]"
proof (intro conjI impI)
  assume a: "kw \<in> set constraint_keywords \<and> (\<forall>c\<in>set ws. is_space c) \<and> upper p = kw"
  from keyword_chars[of kw] a have kw: "kw \<noteq> []" and ns: "\<forall>c\<in>set kw. \<not> is_space c"
    by blast+
  from a kw have pne: "p \<noteq> []" by (auto simp: upper_def)
  from a ns have pns: "\<forall>c\<in>set p. \<not> is_space c" using upper_not_space by blast
  from strip_leading[OF _ pne pns, of ws rest] a
  obtain rest' where s: "strip (ws @ p @ rest) = p @ rest'" by blast
  from skip_pattern_matches[of kw p rest'] a
  have "re_match skip_pattern (p @ rest') \<noteq> None" by blast
  with s show "parse_column_line (ws @ p @ rest) = None"
    by (simp add: parse_column_line_def Let_def)
next
  show "set [''CONSTRAINT'', ''PRIMARY'', ''UNIQUE'', ''FOREIGN'', ''CHECK''] \<subseteq> set constraint_keywords"
    by (simp add: constraint_keywords_def)
next
  show "parse_columns ''CheckStatus int NULL'' = []" by code_simp
next
  show "parse_columns ''[CheckStatus] int NULL'' =
     [\<lparr>col_name = ''CheckStatus'', col_type = ''int'', col_params = None, nullable = True\<rparr>]"
    by code_simp
qed

theorem constraint_prefix_filter_witness:
  "''CHECK'' \<in> set constraint_keywords \<and> list_all is_space '' '' \<and> upper ''Check'' = ''CHECK'' \<and>
   parse_column_line ('' '' @ ''Check'' @ ''Status int NULL'') = None"
proof -
  have h1: "''CHECK'' \<in> set constraint_keywords" by code_simp
  have h2: "\<forall>c\<in>set '' ''. is_space c" by code_simp
  have h3: "upper ''Check'' = ''CHECK''" by code_simp
  have h4: "list_all is_space '' ''" using h2 unfolding list_all_iff .
  from constraint_prefix_filter[of "''CHECK''" "'' ''" "''Check''" "''Status int NULL''"] h1 h2 h3 h4
  show ?thesis by blast
qed

section \<open>Nullability\<close>










section \<open>Totality of the parser\<close>

lemma parse_single_table_columns:
  assumes "parse_single_table f = Some t"
  shows "\<exists>raw. columns t = parse_columns raw"
proof (cases "table_name_match f")
  case None
  with assms show ?thesis by (simp add: parse_single_table_def)
next
  case (Some nm)
  obtain sch tn where nm: "nm = (sch, tn)" by (cases nm)
  obtain a b where fb: "find_bounds f 0 0 (- 1) = (a, b)"
    by (cases "find_bounds f 0 0 (- 1)")
  show ?thesis
  proof (cases "a = - 1 \<or> b = - 1")
    case True
    with assms Some nm fb show ?thesis by (simp add: parse_single_table_def)
  next
    case False
    with assms Some nm fb
    have "t = \<lparr>schema = sch, name = tn,
                columns = parse_columns (re_sub_empty constraint_pattern [] (slice f a b))\<rparr>"
      by (simp add: parse_single_table_def Let_def)
    then have "columns t = parse_columns (re_sub_empty constraint_pattern [] (slice f a b))"
      by simp
    then show ?thesis by blast
  qed
qed

lemma special_types_mapped:
  "map_of type_mapping ''decimal'' = Some ''DECIMAL''"
  "map_of type_mapping ''numeric'' = Some ''DECIMAL''"
  "map_of type_mapping ''float'' = Some ''DOUBLE''"
  "map_of type_mapping ''char'' = Some ''STRING''"
  "map_of type_mapping ''varchar'' = Some ''STRING''"
  "map_of type_mapping ''nchar'' = Some ''STRING''"
  "map_of type_mapping ''nvarchar'' = Some ''STRING''"
  by code_simp+

lemma unknown_type_fallback:
  assumes "map_of type_mapping (lower ty) = None"
  shows "convert_data_type ty p = ''STRING''"
proof -
  have "lower ty \<noteq> ''decimal''" "lower ty \<noteq> ''numeric''" "lower ty \<noteq> ''float''"
    using assms special_types_mapped(1-3) by force+
  with assms show ?thesis
    unfolding convert_data_type_def Let_def by simp
qed

text \<open>
  C7: \<open>parse_sql_server_ddl\<close> is a total function (every function of the model is defined
  by terminating recursion, the matcher included) and no step of it can fail. Its result
  is the tables of the fragments that \<open>_parse_single_table\<close> accepts, in the order of the
  fragments, the others skipped; the columns of a table are those of the fragments that
  the loop of \<open>_parse_columns\<close> accepts, in order, the others dropped; whenever one of the
  name patterns or the column pattern matches, the groups read with \<open>.group(n)\<close> took part
  in the match, so \<open>.lower()\<close> is called on a string, never on \<open>None\<close>; and a type that is
  not in the table is mapped to \<open>STRING\<close>.
\<close>

theorem parse_sql_server_ddl_total:
  "parse_sql_server_ddl content
     = map (the \<circ> parse_single_table)
         (filter (\<lambda>f. parse_single_table f \<noteq> None) (tl (tables_raw content))) \<and>
   (\<forall>f t. parse_single_table f = Some t \<longrightarrow>
      (\<exists>raw. columns t = map (the \<circ> parse_column_line)
                 (filter (\<lambda>l. parse_column_line l \<noteq> None) (smart_split raw)))) \<and>
   (\<forall>s m. re_match qualified_name_pattern s = Some m \<longrightarrow> group m 1 \<noteq> None \<and> group m 2 \<noteq> None) \<and>
   (\<forall>s m. re_match plain_name_pattern s = Some m \<longrightarrow> group m 1 \<noteq> None) \<and>
   (\<forall>s m. re_match column_pattern s = Some m \<longrightarrow> group m 1 \<noteq> None \<and> group m 2 \<noteq> None) \<and>
   (\<forall>ty p. map_of type_mapping (lower ty) = None \<longrightarrow> convert_data_type ty p = ''STRING'')"
proof (intro conjI allI impI)
  show "parse_sql_server_ddl content
     = map (the \<circ> parse_single_table)
         (filter (\<lambda>f. parse_single_table f \<noteq> None) (tl (tables_raw content)))"
    by (simp add: parse_sql_server_ddl_def List.map_filter_def)
next
  fix f t assume "parse_single_table f = Some t"
  from parse_single_table_columns[OF this]
  show "\<exists>raw. columns t = map (the \<circ> parse_column_line)
                 (filter (\<lambda>l. parse_column_line l \<noteq> None) (smart_split raw))"
    by (simp add: parse_columns_def List.map_filter_def)
next
  fix s m assume "re_match qualified_name_pattern s = Some m"
  then show "group m 1 \<noteq> None" "group m 2 \<noteq> None"
    using re_match_group qualified_name_pattern_groups by blast+
next
  fix s m assume "re_match plain_name_pattern s = Some m"
  then show "group m 1 \<noteq> None"
    using re_match_group plain_name_pattern_groups by blast
next
  fix s m assume "re_match column_pattern s = Some m"
  then show "group m 1 \<noteq> None" "group m 2 \<noteq> None"
    using re_match_group column_pattern_groups by blast+
next
  fix ty p assume "map_of type_mapping (lower ty) = None"
  then show "convert_data_type ty p = ''STRING''" by (rule unknown_type_fallback)
qed

theorem parse_sql_server_ddl_total_witness:
  "parse_sql_server_ddl ''CREATE TABLE [A] ( [x] foo, [bad] ) CREATE TABLE [B] ( [y] int''
     = [\<lparr>schema = None, name = ''A'',
          columns = [\<lparr>col_name = ''x'', col_type = ''foo'', col_params = None,
                      nullable = True\<rparr>]\<rparr>] \<and>
   map_of type_mapping (lower ''foo'') = None \<and>
   convert_data_type ''foo'' None = ''STRING''"
proof -
  have h1: "parse_sql_server_ddl ''CREATE TABLE [A] ( [x] foo, [bad] ) CREATE TABLE [B] ( [y] int''
     = [\<lparr>schema = None, name = ''A'',
          columns = [\<lparr>col_name = ''x'', col_type = ''foo'', col_params = None,
                      nullable = True\<rparr>]\<rparr>]"
    by code_simp
  have h2: "map_of type_mapping (lower ''foo'') = None" by code_simp
  note fallback = parse_sql_server_ddl_total[of "[]", THEN conjunct2, THEN conjunct2,
      THEN conjunct2, THEN conjunct2, THEN conjunct2, rule_format]
  from fallback[OF h2] have h3: "convert_data_type ''foo'' None = ''STRING''" .
  from h1 h2 h3 show ?thesis by (intro conjI)
qed

end
